theory Spec2Isabelle
  imports Main "HOL-Library.Multiset"
begin

section \<open>Exceptions and external values\<close>

text \<open>
  The module \<^verbatim>\<open>datasets.py\<close> defines the abstract class \<^verbatim>\<open>Dataset\<close> and its
  implementation \<^verbatim>\<open>KaggleDR\<close>. Every exception the code can raise is a value of
  \<open>pyerr\<close>; a function that may raise returns \<open>pyerr + 'a\<close> with \<open>Inl\<close> the exception.
  The module is Python 2 code (\<^verbatim>\<open>__metaclass__ = ABCMeta\<close>, \<^verbatim>\<open>abstractproperty\<close>,
  lasagne): \<^verbatim>\<open>/\<close> on two ints is floor division.
\<close>

datatype pyerr =
    NameError string
  | KeyError
  | IndexError
  | TypeError
  | ValueError
  | AttributeError
  | ZeroDivisionError
  | IOError
  | AssertionError

text \<open>A cell of the label table as pandas parses it: an integer, a string or a missing value.\<close>

datatype cell = IntC int | StrC string | NaN

text \<open>
  The table returned by \<^verbatim>\<open>pd.read_csv\<close>: named columns over rows with the default index
  \<open>0, 1, ..., N - 1\<close> (row position).
\<close>

record dataframe =
  columns :: "string list"
  rows :: "cell list list"

text \<open>An array decoded from an image file: two axes (greyscale) or three (rows, columns, channels).\<close>

datatype 'a ndarray = Arr2 "'a list list" | Arr3 "'a list list list"

text \<open>The values of \<^verbatim>\<open>theano.config.floatX\<close>, which \<^verbatim>\<open>lasagne.utils.floatX\<close> casts to.\<close>

datatype dtype = Float16 | Float32 | Float64

record 'c tensor =
  tdtype :: dtype
  tdata :: "'c list list list"

text \<open>
  The external collaborators of the module, as parameters: the table reader, the image
  decoder (\<^verbatim>\<open>np.array(Image.open(path))\<close>), the interpolation of
  \<^verbatim>\<open>skimage.transform.resize\<close> (the value of the output pixel at row \<open>i\<close>, column \<open>j\<close>,
  channel \<open>k\<close>, given the \<^verbatim>\<open>preserve_range\<close> flag, the input and the output size), the
  configured float type with its element cast, and the way the installed pandas treats a
  label that is missing from an index. The draws of numpy's global random generator are a
  parameter of the generator below.

  A pandas Series indexed by a list of labels of which some are not in its index: before
  0.21 the lookup is a reindexing and never fails, the missing labels giving the missing
  value; from 0.21 to 0.24 (the last release for Python 2) it raises KeyError when none of
  the labels is in the index and otherwise still gives missing values; from 1.0 on it raises
  KeyError as soon as one label is missing.
\<close>

datatype pandas_missing = ReindexNaN | RaiseIfNoneFound | RaiseIfAnyMissing

record ('a, 'b, 'c) libs =
  read_csv :: "string option \<Rightarrow> pyerr + dataframe"
  image_open :: "string \<Rightarrow> pyerr + 'a ndarray"
  resize_interp :: "bool \<Rightarrow> 'a list list list \<Rightarrow> nat \<times> nat \<Rightarrow> nat \<Rightarrow> nat \<Rightarrow> nat \<Rightarrow> 'b"
  floatX_dtype :: dtype
  floatX_cast :: "dtype \<Rightarrow> 'b \<Rightarrow> 'c"
  series_missing :: pandas_missing

section \<open>Python and library primitives used by the module\<close>

fun index_of :: "'a \<Rightarrow> 'a list \<Rightarrow> nat option" where
  "index_of a [] = None"
| "index_of a (x # xs) = (if a = x then Some 0 else map_option Suc (index_of a xs))"

definition cell_at :: "cell list \<Rightarrow> nat \<Rightarrow> cell" where
  \<comment> \<open>a row shorter than the header is filled with missing values\<close>
  "cell_at r k = (if k < length r then r ! k else NaN)"

definition df_getitem :: "dataframe \<Rightarrow> string \<Rightarrow> pyerr + cell list" where
  \<comment> \<open>\<^verbatim>\<open>labels[name]\<close>: the column, or KeyError when no column has that name\<close>
  "df_getitem df name =
     (case index_of name (columns df) of
        None \<Rightarrow> Inl KeyError
      | Some k \<Rightarrow> Inr (map (\<lambda>r. cell_at r k) (rows df)))"

definition label_present :: "'v list \<Rightarrow> int \<Rightarrow> bool" where
  \<comment> \<open>the label \<open>i\<close> is in the index \<open>0..N-1\<close> of a Series of \<open>N\<close> values\<close>
  "label_present xs i = (0 \<le> i \<and> i < int (length xs))"

definition series_reindex :: "cell list \<Rightarrow> int list \<Rightarrow> cell list" where
  \<comment> \<open>the values at the labels, the missing value where a label is not in the index\<close>
  "series_reindex xs idxs = map (\<lambda>i. if label_present xs i then xs ! nat i else NaN) idxs"

definition series_getitem :: "pandas_missing \<Rightarrow> cell list \<Rightarrow> int list \<Rightarrow> pyerr + cell list" where
  \<comment> \<open>a pandas Series with index \<open>0..N-1\<close> indexed by a list of integers: the integers are
      labels (a negative one is no label of the index)\<close>
  "series_getitem pol xs idxs =
     (case pol of
        ReindexNaN \<Rightarrow> Inr (series_reindex xs idxs)
      | RaiseIfNoneFound \<Rightarrow>
          if idxs \<noteq> [] \<and> (\<forall>i \<in> set idxs. \<not> label_present xs i)
          then Inl KeyError else Inr (series_reindex xs idxs)
      | RaiseIfAnyMissing \<Rightarrow>
          if \<forall>i \<in> set idxs. label_present xs i
          then Inr (series_reindex xs idxs) else Inl KeyError)"

definition ndarray_getitem :: "'v list \<Rightarrow> int list \<Rightarrow> pyerr + 'v list" where
  \<comment> \<open>a one-axis numpy array indexed by a list of integers: positions, negative ones
      counted from the end, IndexError out of bounds\<close>
  "ndarray_getitem ys idxs =
     (if \<forall>i \<in> set idxs. - int (length ys) \<le> i \<and> i < int (length ys)
      then Inr (map (\<lambda>i. ys ! nat (if i < 0 then i + int (length ys) else i)) idxs)
      else Inl IndexError)"

definition os_path_join :: "string \<Rightarrow> string \<Rightarrow> string" where
  \<comment> \<open>\<^verbatim>\<open>posixpath.join\<close> of two components\<close>
  "os_path_join a b =
     (if b \<noteq> [] \<and> hd b = CHR ''/'' then b
      else if a = [] \<or> last a = CHR ''/'' then a @ b
      else a @ ''/'' @ b)"

definition py_clamp :: "nat \<Rightarrow> int \<Rightarrow> nat" where
  \<comment> \<open>a slice bound on a sequence of length \<open>n\<close>: negative bounds count from the end, and
      the result is clipped to \<open>0..n\<close>\<close>
  "py_clamp n i = (if i < 0 then nat (max 0 (i + int n)) else min n (nat i))"

definition py_slice :: "'a list \<Rightarrow> int \<Rightarrow> int \<Rightarrow> 'a list" where
  \<comment> \<open>\<^verbatim>\<open>xs[lo:hi]\<close>\<close>
  "py_slice xs lo hi =
     (let a = py_clamp (length xs) lo; b = py_clamp (length xs) hi
      in take (b - a) (drop a xs))"

definition py_slice_rev :: "'a list \<Rightarrow> 'a list" where
  \<comment> \<open>\<^verbatim>\<open>xs[::-1]\<close>: the elements at positions \<open>n - 1, n - 2, ..., 0\<close>\<close>
  "py_slice_rev xs = map (\<lambda>i. xs ! (length xs - 1 - i)) [0..<length xs]"

definition py_range :: "int \<Rightarrow> int \<Rightarrow> int \<Rightarrow> int list" where
  \<comment> \<open>\<^verbatim>\<open>range(start, stop, step)\<close> for a step other than 0\<close>
  "py_range start stop step =
     (if 0 < step
      then map (\<lambda>k. start + int k * step) [0..<nat ((stop - start + step - 1) div step)]
      else if step < 0
      then map (\<lambda>k. start + int k * step) [0..<nat ((start - stop - step - 1) div (- step))]
      else [])"

fun shuffle_loop :: "(nat \<Rightarrow> nat) \<Rightarrow> nat \<Rightarrow> 'a list \<Rightarrow> 'a list" where
  "shuffle_loop draw 0 xs = xs"
| "shuffle_loop draw (Suc i) xs =
     (let j = draw (Suc i) mod (Suc i + 1)
      in shuffle_loop draw i (xs[Suc i := xs ! j, j := xs ! Suc i]))"

definition np_random_shuffle :: "(nat \<Rightarrow> nat) \<Rightarrow> 'a list \<Rightarrow> 'a list" where
  \<comment> \<open>\<^verbatim>\<open>np.random.shuffle(x)\<close>: for \<open>i = n - 1\<close> down to \<open>1\<close>, swap \<open>x[i]\<close> with \<open>x[j]\<close>
      for a drawn \<open>j\<close> in \<open>0..i\<close>; the sequence is changed in place, so the result is the
      caller's sequence afterwards\<close>
  "np_random_shuffle draw xs = shuffle_loop draw (length xs - 1) xs"

fun try_map :: "('a \<Rightarrow> pyerr + 'b) \<Rightarrow> 'a list \<Rightarrow> pyerr + 'b list" where
  "try_map f [] = Inr []"
| "try_map f (x # xs) =
     (case f x of
        Inl e \<Rightarrow> Inl e
      | Inr v \<Rightarrow> (case try_map f xs of Inl e \<Rightarrow> Inl e | Inr vs \<Rightarrow> Inr (v # vs)))"

definition im_shape :: "'a list list list \<Rightarrow> nat \<times> nat \<times> nat" where
  \<comment> \<open>\<^verbatim>\<open>im.shape\<close> of a three-axis array held as nested lists\<close>
  "im_shape im =
     (length im,
      (case im of [] \<Rightarrow> 0 | r # _ \<Rightarrow> length r),
      (case im of (p # _) # _ \<Rightarrow> length p | _ \<Rightarrow> 0))"

definition sk_resize ::
  "(bool \<Rightarrow> 'a list list list \<Rightarrow> nat \<times> nat \<Rightarrow> nat \<Rightarrow> nat \<Rightarrow> nat \<Rightarrow> 'b) \<Rightarrow>
   'a list list list \<Rightarrow> nat \<times> nat \<Rightarrow> bool \<Rightarrow> 'b list list list" where
  \<comment> \<open>\<^verbatim>\<open>skimage.transform.resize(im, (r, c), preserve_range=p)\<close>: an array of \<open>r\<close> rows
      and \<open>c\<close> columns with the channels of the input\<close>
  "sk_resize interp im out_shape p =
     (case out_shape of (r, c) \<Rightarrow>
        map (\<lambda>i. map (\<lambda>j. map (\<lambda>k. interp p im (r, c) i j k)
                               [0..<snd (snd (im_shape im))])
                      [0..<c])
            [0..<r])"

definition np_transpose_201 :: "'a list list list \<Rightarrow> 'a list list list" where
  \<comment> \<open>\<^verbatim>\<open>np.transpose(im, (2, 0, 1))\<close>: \<open>out[k][i][j] = im[i][j][k]\<close>\<close>
  "np_transpose_201 im =
     map (\<lambda>k. map (\<lambda>row. map (\<lambda>px. px ! k) row) im) [0..<snd (snd (im_shape im))]"

definition floatX :: "dtype \<Rightarrow> (dtype \<Rightarrow> 'b \<Rightarrow> 'c) \<Rightarrow> 'b list list list \<Rightarrow> 'c tensor" where
  \<comment> \<open>\<^verbatim>\<open>lasagne.utils.floatX(arr) = np.asarray(arr, dtype=theano.config.floatX)\<close>\<close>
  "floatX cfg cast im = \<lparr>tdtype = cfg, tdata = map (map (map (cast cfg))) im\<rparr>"

definition np_array :: "'c tensor list \<Rightarrow> pyerr + 'c tensor list" where
  \<comment> \<open>\<^verbatim>\<open>np.array([t0, t1, ...])\<close>: stacks arrays of one shape along a new first axis\<close>
  "np_array ts =
     (if \<forall>t \<in> set ts. im_shape (tdata t) = im_shape (tdata (hd ts))
      then Inr ts else Inl ValueError)"

section \<open>class KaggleDR\<close>

record KaggleDR =
  path_data :: "string option"
  filename_targets :: "string option"
  image_filenames :: "cell list"
  y_arr :: "cell list"
  n_samples_attr :: nat

definition KaggleDR_init ::
  "('a, 'b, 'c) libs \<Rightarrow> string option \<Rightarrow> string option \<Rightarrow> pyerr + KaggleDR" where
  \<comment> \<open>\<^verbatim>\<open>KaggleDR.__init__(self, path_data=None, filename_targets=None)\<close>;
      \<open>y_arr\<close> is \<^verbatim>\<open>self.y\<close> and \<open>n_samples_attr\<close> is \<^verbatim>\<open>self._n_samples\<close>\<close>
  "KaggleDR_init L pd ft =
     (case read_csv L ft of
        Inl e \<Rightarrow> Inl e
      | Inr labels \<Rightarrow>
          (case df_getitem labels ''image'' of
             Inl e \<Rightarrow> Inl e
           | Inr fns \<Rightarrow>
               (case df_getitem labels ''level'' of
                  Inl e \<Rightarrow> Inl e
                | Inr lv \<Rightarrow>
                    Inr \<lparr>path_data = pd, filename_targets = ft, image_filenames = fns,
                         y_arr = lv, n_samples_attr = length lv\<rparr>)))"

definition n_samples :: "KaggleDR \<Rightarrow> nat" where
  "n_samples self = n_samples_attr self"

definition load_image :: "('a, 'b, 'c) libs \<Rightarrow> KaggleDR \<Rightarrow> cell \<Rightarrow> pyerr + 'a ndarray" where
  \<comment> \<open>\<^verbatim>\<open>filename + '.jpeg'\<close> needs a string; \<^verbatim>\<open>os.path.join\<close> needs a directory\<close>
  "load_image L self filename =
     (case filename of
        StrC s \<Rightarrow>
          (case path_data self of
             None \<Rightarrow> Inl AttributeError
           | Some d \<Rightarrow> image_open L (os_path_join d (s @ ''.jpeg'')))
      | _ \<Rightarrow> Inl TypeError)"

definition prep_resize ::
  "('a, 'b, 'c) libs \<Rightarrow> 'a list list list \<Rightarrow> pyerr + 'b list list list" where
  \<comment> \<open>lines 127 to 133 of \<^verbatim>\<open>prep_image\<close>: resize so that the smallest side is 256\<close>
  "prep_resize L im =
     (case im_shape im of (h, w, _) \<Rightarrow>
        if h < w
        then (if h = 0 then Inl ZeroDivisionError
              else Inr (sk_resize (resize_interp L) im (256, w * 256 div h) True))
        else (if w = 0 then Inl ZeroDivisionError
              else Inr (sk_resize (resize_interp L) im (h * 256 div w, 256) True)))"

definition prep_crop :: "'b list list list \<Rightarrow> 'b list list list" where
  \<comment> \<open>lines 135 and 136: \<^verbatim>\<open>im[h//2-112:h//2+112, w//2-112:w//2+112]\<close>\<close>
  "prep_crop im =
     (case im_shape im of (h, w, _) \<Rightarrow>
        map (\<lambda>row. py_slice row (int (w div 2) - 112) (int (w div 2) + 112))
            (py_slice im (int (h div 2) - 112) (int (h div 2) + 112)))"

definition prep_image :: "('a, 'b, 'c) libs \<Rightarrow> 'a ndarray \<Rightarrow> pyerr + 'c tensor" where
  \<comment> \<open>\<^verbatim>\<open>h, w, _ = im.shape\<close> raises ValueError on an array of two axes\<close>
  "prep_image L arr =
     (case arr of
        Arr2 _ \<Rightarrow> Inl ValueError
      | Arr3 im \<Rightarrow>
          (case prep_resize L im of
             Inl e \<Rightarrow> Inl e
           | Inr im1 \<Rightarrow>
               Inr (floatX (floatX_dtype L) (floatX_cast L)
                      (py_slice_rev (np_transpose_201 (prep_crop im1))))))"

definition load_batch ::
  "('a, 'b, 'c) libs \<Rightarrow> KaggleDR \<Rightarrow> int list \<Rightarrow> pyerr + ('c tensor list \<times> cell list)" where
  "load_batch L self indices =
     (case series_getitem (series_missing L) (image_filenames self) indices of
        Inl e \<Rightarrow> Inl e
      | Inr fns \<Rightarrow>
          (case try_map (\<lambda>fn. case load_image L self fn of
                                 Inl e \<Rightarrow> Inl e
                               | Inr im \<Rightarrow> prep_image L im) fns of
             Inl e \<Rightarrow> Inl e
           | Inr ts \<Rightarrow>
               (case np_array ts of
                  Inl e \<Rightarrow> Inl e
                | Inr X \<Rightarrow>
                    (case ndarray_getitem (y_arr self) indices of
                       Inl e \<Rightarrow> Inl e
                     | Inr yv \<Rightarrow>
                         if length X = length yv \<and> length yv = length indices
                         then Inr (X, yv)
                         else Inl AssertionError))))"

section \<open>class Dataset: the minibatch generator\<close>

text \<open>
  The generator's signature is
  \<^verbatim>\<open>iterate_minibatches(self, indices, batchsize, shuffle=False)\<close> and its body reads the
  name \<^verbatim>\<open>batch_size\<close>, which is no parameter and no local: Python looks it up among the
  module's global names. \<open>module_globals\<close> lists the names the module binds at top level
  (its imports and its two classes).
\<close>

datatype pyobj = PyInt int | PyOther

definition module_globals :: "(string \<times> pyobj) list" where
  "module_globals =
     [(''ABCMeta'', PyOther), (''abstractmethod'', PyOther), (''abstractproperty'', PyOther),
      (''os'', PyOther), (''np'', PyOther), (''pd'', PyOther), (''Image'', PyOther),
      (''skimage'', PyOther), (''floatX'', PyOther), (''Dataset'', PyOther),
      (''KaggleDR'', PyOther)]"

text \<open>
  A run of the generator to its end: the caller's index sequence afterwards, the batches
  yielded in order, and the exception that ended the run, if one did.
\<close>

record 'x gen_run =
  indices_after :: "int list"
  yielded :: "'x list"
  raised :: "pyerr option"

fun run_batches :: "(int list \<Rightarrow> pyerr + 'x) \<Rightarrow> int list list \<Rightarrow> 'x list \<times> pyerr option" where
  "run_batches ld [] = ([], None)"
| "run_batches ld (w # ws) =
     (case ld w of
        Inl e \<Rightarrow> ([], Some e)
      | Inr x \<Rightarrow> (case run_batches ld ws of (xs, r) \<Rightarrow> (x # xs, r)))"

definition iterate_minibatches ::
  "(string \<times> pyobj) list \<Rightarrow> (nat \<Rightarrow> nat) \<Rightarrow> (int list \<Rightarrow> pyerr + 'x) \<Rightarrow>
   int list \<Rightarrow> int \<Rightarrow> bool \<Rightarrow> 'x gen_run" where
  \<comment> \<open>\<open>ld\<close> is the abstract method \<^verbatim>\<open>self.load_batch\<close>; the parameter \<open>batchsize\<close> is
      never read by the body\<close>
  "iterate_minibatches globs draw ld indices batchsize shuffle =
     (let indices1 = (if shuffle then np_random_shuffle draw indices else indices)
      in case map_of globs ''batch_size'' of
           None \<Rightarrow>
             \<lparr>indices_after = indices1, yielded = [],
              raised = Some (NameError ''batch_size'')\<rparr>
         | Some PyOther \<Rightarrow>
             \<lparr>indices_after = indices1, yielded = [], raised = Some TypeError\<rparr>
         | Some (PyInt b) \<Rightarrow>
             if b = 0
             then \<lparr>indices_after = indices1, yielded = [], raised = Some ValueError\<rparr>
             else (case run_batches ld
                          (map (\<lambda>start_idx. py_slice indices1 start_idx (start_idx + b))
                               (py_range 0 (int (length indices1) - b + 1) b)) of
                     (xs, r) \<Rightarrow> \<lparr>indices_after = indices1, yielded = xs, raised = r\<rparr>))"

section \<open>Auxiliary notions and sample data\<close>

definition out_shape :: "pyerr + 'c tensor \<Rightarrow> (nat \<times> nat \<times> nat) option" where
  "out_shape res = (case res of Inl _ \<Rightarrow> None | Inr t \<Rightarrow> Some (im_shape (tdata t)))"

definition decodable :: "('a, 'b, 'c) libs \<Rightarrow> KaggleDR \<Rightarrow> cell \<Rightarrow> bool" where
  \<comment> \<open>the file of a sample decodes to a raster of three channels\<close>
  "decodable L self fn =
     (case load_image L self fn of
        Inr (Arr3 im) \<Rightarrow> (case im_shape im of (h, w, c) \<Rightarrow> 0 < h \<and> 0 < w \<and> c = 3)
      | _ \<Rightarrow> False)"

definition table_unusable :: "('a, 'b, 'c) libs \<Rightarrow> string option \<Rightarrow> bool" where
  \<comment> \<open>the label file cannot be read or parsed, or the table lacks one of the two columns\<close>
  "table_unusable L ft =
     (case read_csv L ft of
        Inl _ \<Rightarrow> True
      | Inr df \<Rightarrow> index_of ''image'' (columns df) = None \<or> index_of ''level'' (columns df) = None)"

text \<open>
  A label file with the rows \<^verbatim>\<open>img1,0\<close> and \<^verbatim>\<open>img2,2\<close> under the header
  \<^verbatim>\<open>image,level\<close>, two image files of one pixel row and two pixel columns, a
  nearest-neighbour interpolation, and a pandas older than 0.21.
\<close>

definition demo_table :: dataframe where
  "demo_table =
     \<lparr>columns = [''image'', ''level''],
      rows = [[StrC ''img1'', IntC 0], [StrC ''img2'', IntC 2]]\<rparr>"

definition demo_image :: "nat list list list" where
  "demo_image = [[[10, 20, 30], [40, 50, 60]]]"

definition demo_libs :: "(nat, nat, nat) libs" where
  "demo_libs =
     \<lparr>read_csv = (\<lambda>p. if p = Some ''labels.csv'' then Inr demo_table else Inl IOError),
      image_open = (\<lambda>p. if p = ''data/img1.jpeg'' \<or> p = ''data/img2.jpeg''
                         then Inr (Arr3 demo_image) else Inl IOError),
      resize_interp = (\<lambda>p im out i j k.
                         im ! (i * length im div fst out) ! (j * length (hd im) div snd out) ! k),
      floatX_dtype = Float32,
      floatX_cast = (\<lambda>_ v. v),
      series_missing = ReindexNaN\<rparr>"

definition demo_kdr :: KaggleDR where
  "demo_kdr =
     \<lparr>path_data = Some ''data'', filename_targets = Some ''labels.csv'',
      image_filenames = [StrC ''img1'', StrC ''img2''],
      y_arr = [IntC 0, IntC 2], n_samples_attr = 2\<rparr>"

text \<open>The same directory holding the images as \<^verbatim>\<open>.png\<close> files only.\<close>

definition png_libs :: "(nat, nat, nat) libs" where
  "png_libs =
     demo_libs\<lparr>image_open := (\<lambda>p. if p = ''data/img1.png'' \<or> p = ''data/img2.png''
                                     then Inr (Arr3 demo_image) else Inl IOError)\<rparr>"

text \<open>A label file whose only row is \<^verbatim>\<open>img1,abc\<close>: pandas reads the label as a string.\<close>

definition text_label_libs :: "(nat, nat, nat) libs" where
  "text_label_libs =
     demo_libs\<lparr>read_csv := (\<lambda>p. Inr \<lparr>columns = [''image'', ''level''],
                                      rows = [[StrC ''img1'', StrC ''abc'']]\<rparr>)\<rparr>"

text \<open>The module's namespace with the name \<^verbatim>\<open>batch_size\<close> bound as well.\<close>

definition bound_globals :: "int \<Rightarrow> (string \<times> pyobj) list" where
  "bound_globals b = (''batch_size'', PyInt b) # module_globals"

section \<open>The generator on the module as it is\<close>

lemma map_of_module_globals_batch_size: "map_of module_globals ''batch_size'' = None"
  by (simp add: module_globals_def)

lemma mset_shuffle_loop: "i < length xs \<Longrightarrow> mset (shuffle_loop draw i xs) = mset xs"
proof (induction i arbitrary: xs)
  case 0
  show ?case by simp
next
  case (Suc i)
  let ?j = "draw (Suc i) mod (Suc i + 1)"
  have j: "?j < length xs"
  proof -
    have "?j < Suc i + 1" by (rule mod_less_divisor) simp
    with Suc.prems show ?thesis by arith
  qed
  have "mset (xs[Suc i := xs ! ?j, ?j := xs ! Suc i]) = mset xs"
    using Suc.prems j by (simp add: mset_swap)
  moreover have "i < length (xs[Suc i := xs ! ?j, ?j := xs ! Suc i])"
    using Suc.prems by simp
  ultimately show ?case
    using Suc.IH [of "xs[Suc i := xs ! ?j, ?j := xs ! Suc i]"] by (simp add: Let_def)
qed

lemma mset_np_random_shuffle: "mset (np_random_shuffle draw xs) = mset xs"
proof (cases xs)
  case Nil
  then show ?thesis by (simp add: np_random_shuffle_def)
next
  case (Cons a list)
  then have "length xs - 1 < length xs" by simp
  then show ?thesis unfolding np_random_shuffle_def by (rule mset_shuffle_loop)
qed

lemma iterate_minibatches_module:
  "iterate_minibatches module_globals draw ld indices batchsize shuffle =
     \<lparr>indices_after = (if shuffle then np_random_shuffle draw indices else indices),
      yielded = [], raised = Some (NameError ''batch_size'')\<rparr>"
  by (simp add: iterate_minibatches_def map_of_module_globals_batch_size)

section \<open>Preprocessing: resize, crop, transpose, reverse, cast\<close>


lemma im_shape_alt:
  "im_shape im = (length im, (if im = [] then 0 else length (hd im)),
                  (if im = [] \<or> hd im = [] then 0 else length (hd (hd im))))"
  by (simp add: im_shape_def split: list.splits)

lemma py_slice_rev_rev: "py_slice_rev xs = rev xs"
proof (rule nth_equalityI)
  show "length (py_slice_rev xs) = length (rev xs)" by (simp add: py_slice_rev_def)
next
  fix i assume "i < length (py_slice_rev xs)"
  then have i: "i < length xs" by (simp add: py_slice_rev_def)
  then show "py_slice_rev xs ! i = rev xs ! i" by (simp add: py_slice_rev_def rev_nth)
qed

lemma py_slice_rev_map_upt:
  "py_slice_rev (map F [0..<c]) = map (\<lambda>k. F (c - 1 - k)) [0..<c]"
  unfolding py_slice_rev_def by (rule map_cong) simp_all

lemma np_transpose_201_map:
  assumes "rs \<noteq> []" "cs \<noteq> []"
  shows "np_transpose_201 (map (\<lambda>i. map (\<lambda>j. map (\<lambda>k. g i j k) [0..<c]) cs) rs)
           = map (\<lambda>k. map (\<lambda>i. map (\<lambda>j. g i j k) cs) rs) [0..<c]"
proof -
  have sh: "snd (snd (im_shape (map (\<lambda>i. map (\<lambda>j. map (\<lambda>k. g i j k) [0..<c]) cs) rs))) = c"
    using assms by (simp add: im_shape_alt hd_map)
  show ?thesis
    unfolding np_transpose_201_def sh
    by (rule map_cong [OF refl]) (simp add: comp_def)
qed

lemma resize_target_wide: "0 < h \<Longrightarrow> h < w \<Longrightarrow> 256 \<le> w * 256 div (h::nat)"
proof -
  assume h: "0 < h" "h < w"
  have "h * 256 div h \<le> w * 256 div h" by (rule div_le_mono) (use h in simp)
  then show ?thesis using h by simp
qed

lemma resize_target_tall: "0 < w \<Longrightarrow> \<not> h < w \<Longrightarrow> 256 \<le> h * 256 div (w::nat)"
proof -
  assume w: "0 < w" "\<not> h < w"
  have "w * 256 div w \<le> h * 256 div w" by (rule div_le_mono) (use w in simp)
  then show ?thesis using w by simp
qed

lemma prep_resize_ok:
  assumes "im_shape im = (h, w, c)" "0 < h" "0 < w"
  shows "prep_resize L im
           = Inr (sk_resize (resize_interp L) im
                    (if h < w then (256, w * 256 div h) else (h * 256 div w, 256)) True)"
  using assms by (simp add: prep_resize_def)

lemma py_clamp_lo: "112 \<le> m \<Longrightarrow> m \<le> n \<Longrightarrow> py_clamp n (int m - 112) = m - 112"
  by (simp add: py_clamp_def nat_diff_distrib)

lemma py_clamp_hi: "m + 112 \<le> n \<Longrightarrow> py_clamp n (int m + 112) = m + 112"
  by (simp add: py_clamp_def nat_add_distrib)

lemma py_slice_center:
  assumes "224 \<le> length xs"
  shows "py_slice xs (int (length xs div 2) - 112) (int (length xs div 2) + 112)
           = take 224 (drop (length xs div 2 - 112) xs)"
proof -
  let ?m = "length xs div 2"
  have m: "112 \<le> ?m" "?m \<le> length xs" "?m + 112 \<le> length xs"
    using assms by arith+
  have "(?m + 112) - (?m - 112) = 224" using m by arith
  then show ?thesis
    by (simp add: py_slice_def Let_def py_clamp_lo [OF m(1) m(2)] py_clamp_hi [OF m(3)])
qed

lemma sk_resize_length: "length (sk_resize f im (r, c) p) = r"
  by (simp add: sk_resize_def)

lemma sk_resize_nth:
  "i < r \<Longrightarrow> sk_resize f im (r, c) p ! i
     = map (\<lambda>j. map (\<lambda>k. f p im (r, c) i j k) [0..<snd (snd (im_shape im))]) [0..<c]"
  by (simp add: sk_resize_def)

lemma im_shape_sk_resize:
  "0 < r \<Longrightarrow> 0 < c \<Longrightarrow>
   im_shape (sk_resize f im (r, c) p) = (r, c, snd (snd (im_shape im)))"
  by (simp add: im_shape_alt sk_resize_def hd_map)

lemma prep_crop_sk_resize:
  assumes r: "224 \<le> r" and c: "224 \<le> c"
  shows "prep_crop (sk_resize f im (r, c) p)
     = map (\<lambda>i. map (\<lambda>j. map (\<lambda>k. f p im (r, c) i j k) [0..<snd (snd (im_shape im))])
                      [c div 2 - 112..<c div 2 - 112 + 224])
           [r div 2 - 112..<r div 2 - 112 + 224]"
proof -
  have sh: "im_shape (sk_resize f im (r, c) p) = (r, c, snd (snd (im_shape im)))"
    using r c by (simp add: im_shape_sk_resize)
  have rr: "r div 2 - 112 + 224 \<le> r" using r by arith
  have cc: "c div 2 - 112 + 224 \<le> c" using c by arith
  have row: "\<And>g. py_slice (map g [0..<c]) (int (c div 2) - 112) (int (c div 2) + 112)
      = map g [c div 2 - 112..<c div 2 - 112 + 224]"
  proof -
    fix g :: "nat \<Rightarrow> 'x"
    have "py_slice (map g [0..<c]) (int (length (map g [0..<c]) div 2) - 112)
            (int (length (map g [0..<c]) div 2) + 112)
          = take 224 (drop (length (map g [0..<c]) div 2 - 112) (map g [0..<c]))"
      by (rule py_slice_center) (simp add: c)
    then show "py_slice (map g [0..<c]) (int (c div 2) - 112) (int (c div 2) + 112)
      = map g [c div 2 - 112..<c div 2 - 112 + 224]"
      using cc by (simp add: take_map drop_map take_upt)
  qed
  have col: "\<And>g. py_slice (map g [0..<r]) (int (r div 2) - 112) (int (r div 2) + 112)
      = map g [r div 2 - 112..<r div 2 - 112 + 224]"
  proof -
    fix g :: "nat \<Rightarrow> 'y"
    have "py_slice (map g [0..<r]) (int (length (map g [0..<r]) div 2) - 112)
            (int (length (map g [0..<r]) div 2) + 112)
          = take 224 (drop (length (map g [0..<r]) div 2 - 112) (map g [0..<r]))"
      by (rule py_slice_center) (simp add: r)
    then show "py_slice (map g [0..<r]) (int (r div 2) - 112) (int (r div 2) + 112)
      = map g [r div 2 - 112..<r div 2 - 112 + 224]"
      using rr by (simp add: take_map drop_map take_upt)
  qed
  show ?thesis
    unfolding prep_crop_def sh
    by (simp add: sk_resize_def col row)
qed


lemma prep_image_Arr3:
  assumes sh: "im_shape im = (h, w, c)" and h: "0 < h" and w: "0 < w"
    and tgt: "tgt = (if h < w then (256, w * 256 div h) else (h * 256 div w, 256))"
  shows "prep_image L (Arr3 im)
     = Inr \<lparr>tdtype = floatX_dtype L,
            tdata = map (\<lambda>k. map (\<lambda>i. map (\<lambda>j. floatX_cast L (floatX_dtype L)
                                      (resize_interp L True im tgt i j (c - 1 - k)))
                                   [snd tgt div 2 - 112..<snd tgt div 2 - 112 + 224])
                              [fst tgt div 2 - 112..<fst tgt div 2 - 112 + 224])
                        [0..<c]\<rparr>"
proof -
  obtain r q where rq: "tgt = (r, q)" by (cases tgt)
  have r: "224 \<le> r" and q: "224 \<le> q"
    using tgt rq resize_target_wide [of h w] resize_target_tall [of w h] h w
    by (auto split: if_splits)
  have c: "snd (snd (im_shape im)) = c" using sh by simp
  have "prep_resize L im = Inr (sk_resize (resize_interp L) im tgt True)"
    unfolding tgt by (rule prep_resize_ok [OF sh h w])
  then have res: "prep_resize L im = Inr (sk_resize (resize_interp L) im (r, q) True)"
    by (simp add: rq)
  have crop: "prep_crop (sk_resize (resize_interp L) im (r, q) True)
     = map (\<lambda>i. map (\<lambda>j. map (\<lambda>k. resize_interp L True im (r, q) i j k) [0..<c])
                      [q div 2 - 112..<q div 2 - 112 + 224])
           [r div 2 - 112..<r div 2 - 112 + 224]"
    using prep_crop_sk_resize [OF r q, of "resize_interp L" im True] c by simp
  have ne: "[r div 2 - 112..<r div 2 - 112 + 224] \<noteq> []" "[q div 2 - 112..<q div 2 - 112 + 224] \<noteq> []"
    by simp_all
  have tr: "np_transpose_201 (prep_crop (sk_resize (resize_interp L) im (r, q) True))
     = map (\<lambda>k. map (\<lambda>i. map (\<lambda>j. resize_interp L True im (r, q) i j k)
                      [q div 2 - 112..<q div 2 - 112 + 224])
           [r div 2 - 112..<r div 2 - 112 + 224]) [0..<c]"
    unfolding crop by (rule np_transpose_201_map [OF ne])
  show ?thesis
    unfolding prep_image_def
    by (simp add: res tr py_slice_rev_map_upt floatX_def rq comp_def)
qed


lemma prep_image_shape:
  assumes sh: "im_shape im = (h, w, c)" and h: "0 < h" and w: "0 < w" and c: "0 < c"
  shows "\<exists>t. prep_image L (Arr3 im) = Inr t \<and> tdtype t = floatX_dtype L
             \<and> im_shape (tdata t) = (c, 224, 224)"
proof -
  let ?tgt = "if h < w then (256, w * 256 div h) else (h * 256 div w, 256)"
  note eq = prep_image_Arr3 [OF sh h w refl, of L]
  show ?thesis
    unfolding eq using c by (simp add: im_shape_alt hd_map)
qed

lemma demo_image_shape: "im_shape demo_image = (1, 2, 3)"
  by (simp add: im_shape_def demo_image_def)

lemma demo_init: "KaggleDR_init demo_libs (Some ''data'') (Some ''labels.csv'') = Inr demo_kdr"
  by (simp add: KaggleDR_init_def demo_libs_def demo_table_def demo_kdr_def df_getitem_def
      cell_at_def)

lemma init_lengths:
  assumes "KaggleDR_init L pd ft = Inr self"
  shows "length (image_filenames self) = n_samples self \<and> length (y_arr self) = n_samples self"
  using assms
  by (auto simp: KaggleDR_init_def df_getitem_def n_samples_def split: sum.splits option.splits)

text \<open>
  C8. Reversing the channel axis (\<^verbatim>\<open>im[::-1, :, :]\<close>, the RGB to BGR step) is an
  involution: applied twice to any three-axis array it gives the array back.
\<close>

theorem channel_reversal_twice:
  "py_slice_rev (py_slice_rev (im :: 'a list list list)) = im"
  by (simp add: py_slice_rev_rev)

text \<open>
  C4. For an image of height \<open>h\<close>, width \<open>w\<close> (both positive) and \<open>c\<close> channels the resize
  step calls \<^verbatim>\<open>skimage.transform.resize\<close> with \<^verbatim>\<open>preserve_range=True\<close> and the
  size \<open>(256, w*256/h)\<close> if \<open>h < w\<close>, else \<open>(h*256/w, 256)\<close>; the result has exactly that
  shape with the channels of the input, the other side is at least 256 (so the smaller side
  is exactly 256), and the aspect ratio is preserved up to the floor of the integer
  division. No case is made for small images: one of one row and two columns is scaled up
  to 256 by 512.
\<close>

theorem resize_short_side_256:
  assumes sh: "im_shape im = (h, w, c)" and h: "0 < h" and w: "0 < w"
  shows "prep_resize L im
           = Inr (sk_resize (resize_interp L) im
                    (if h < w then (256, w * 256 div h) else (h * 256 div w, 256)) True)
       \<and> im_shape (sk_resize (resize_interp L) im
                    (if h < w then (256, w * 256 div h) else (h * 256 div w, 256)) True)
           = (if h < w then (256, w * 256 div h, c) else (h * 256 div w, 256, c))
       \<and> (if h < w
          then 256 \<le> w * 256 div h \<and> w * 256 div h * h \<le> w * 256
               \<and> w * 256 < h + w * 256 div h * h
          else 256 \<le> h * 256 div w \<and> h * 256 div w * w \<le> h * 256
               \<and> h * 256 < w + h * 256 div w * w)"
proof (intro conjI)
  show "prep_resize L im
           = Inr (sk_resize (resize_interp L) im
                    (if h < w then (256, w * 256 div h) else (h * 256 div w, 256)) True)"
    by (rule prep_resize_ok [OF sh h w])
next
  have c: "snd (snd (im_shape im)) = c" using sh by simp
  show "im_shape (sk_resize (resize_interp L) im
                    (if h < w then (256, w * 256 div h) else (h * 256 div w, 256)) True)
           = (if h < w then (256, w * 256 div h, c) else (h * 256 div w, 256, c))"
  proof (cases "h < w")
    case True
    then have "0 < w * 256 div h" using resize_target_wide [OF h True] by simp
    then show ?thesis using True c by (simp add: im_shape_sk_resize)
  next
    case False
    then have "0 < h * 256 div w" using resize_target_tall [OF w False] by simp
    then show ?thesis using False c by (simp add: im_shape_sk_resize)
  qed
next
  show "if h < w
          then 256 \<le> w * 256 div h \<and> w * 256 div h * h \<le> w * 256
               \<and> w * 256 < h + w * 256 div h * h
          else 256 \<le> h * 256 div w \<and> h * 256 div w * w \<le> h * 256
               \<and> h * 256 < w + h * 256 div w * w"
    using resize_target_wide [OF h, of w] resize_target_tall [OF w, of h]
      dividend_less_div_times [OF h, of "w * 256"] dividend_less_div_times [OF w, of "h * 256"]
    by simp
qed

text \<open>The statement at the sample image of one row and two columns.\<close>

theorem resize_short_side_256_witness:
  "im_shape demo_image = (1, 2, 3)
   \<and> prep_resize demo_libs demo_image
       = Inr (sk_resize (resize_interp demo_libs) demo_image (256, 512) True)
   \<and> im_shape (sk_resize (resize_interp demo_libs) demo_image (256, 512) True) = (256, 512, 3)"
  using resize_short_side_256 [OF demo_image_shape, of demo_libs] demo_image_shape by simp

text \<open>
  C3. For every raster of three channels with positive height and width, preprocessing
  returns a tensor of shape \<open>(3, 224, 224)\<close> whose dtype is the configured float type, and
  its entry at channel \<open>k\<close>, row \<open>i\<close>, column \<open>j\<close> is the cast of the resized image at row
  \<open>h div 2 - 112 + i\<close>, column \<open>w div 2 - 112 + j\<close> (\<open>h\<close>, \<open>w\<close> the resized height and
  width) and channel \<open>2 - k\<close>: the centre crop with floor-based centring.
\<close>

theorem prep_image_crop_shape:
  assumes sh: "im_shape im = (h, w, 3)" and h: "0 < h" and w: "0 < w"
  shows "\<exists>t im1. prep_resize L im = Inr im1 \<and> prep_image L (Arr3 im) = Inr t
           \<and> tdtype t = floatX_dtype L
           \<and> im_shape (tdata t) = (3, 224, 224)
           \<and> (\<forall>k<3. \<forall>i<224. \<forall>j<224.
                 tdata t ! k ! i ! j
                   = floatX_cast L (floatX_dtype L)
                       (im1 ! (fst (im_shape im1) div 2 - 112 + i)
                            ! (fst (snd (im_shape im1)) div 2 - 112 + j) ! (2 - k)))"
proof -
  obtain r q where rq: "(r, q) = (if h < w then (256, w * 256 div h) else (h * 256 div w, 256))"
    by (cases "if h < w then (256, w * 256 div h) else (h * 256 div w, 256)") simp
  have r: "224 \<le> r" and q: "224 \<le> q"
    using rq resize_target_wide [OF h, of w] resize_target_tall [OF w, of h]
    by (auto split: if_splits)
  let ?im1 = "sk_resize (resize_interp L) im (r, q) True"
  have res: "prep_resize L im = Inr ?im1"
    unfolding rq by (rule prep_resize_ok [OF sh h w])
  have c3: "snd (snd (im_shape im)) = 3" using sh by simp
  have sh1: "im_shape ?im1 = (r, q, 3)"
    using r q c3 by (simp add: im_shape_sk_resize)
  have px: "?im1 ! a ! b ! k = resize_interp L True im (r, q) a b k"
    if "a < r" "b < q" "k < 3" for a b k
    using that c3 by (simp add: sk_resize_def)
  note eq = prep_image_Arr3 [OF sh h w rq, of L]
  have ri: "r div 2 - 112 + i < r" if "i < 224" for i using r that by arith
  have qj: "q div 2 - 112 + j < q" if "j < 224" for j using q that by arith
  have val: "tdata (projr (prep_image L (Arr3 im))) ! k ! i ! j
      = floatX_cast L (floatX_dtype L)
          (?im1 ! (r div 2 - 112 + i) ! (q div 2 - 112 + j) ! (2 - k))"
    if "k < 3" "i < 224" "j < 224" for k i j
  proof -
    have "2 - k < 3" using that by arith
    then show ?thesis
      unfolding eq using that by (simp add: px [OF ri qj])
  qed
  obtain t where t: "prep_image L (Arr3 im) = Inr t" "tdtype t = floatX_dtype L"
      "im_shape (tdata t) = (3, 224, 224)"
    using prep_image_shape [OF sh h w, of L] by auto
  show ?thesis
    using res t val sh1 by (intro exI [of _ t] exI [of _ ?im1]) simp
qed

text \<open>The statement at the sample image.\<close>

theorem prep_image_crop_shape_witness:
  "im_shape demo_image = (1, 2, 3)
   \<and> (\<exists>t im1. prep_resize demo_libs demo_image = Inr im1
         \<and> prep_image demo_libs (Arr3 demo_image) = Inr t
         \<and> tdtype t = floatX_dtype demo_libs
         \<and> im_shape (tdata t) = (3, 224, 224)
         \<and> (\<forall>k<3. \<forall>i<224. \<forall>j<224.
               tdata t ! k ! i ! j
                 = floatX_cast demo_libs (floatX_dtype demo_libs)
                     (im1 ! (fst (im_shape im1) div 2 - 112 + i)
                          ! (fst (snd (im_shape im1)) div 2 - 112 + j) ! (2 - k))))"
proof -
  have c: "\<exists>t im1. prep_resize demo_libs demo_image = Inr im1
         \<and> prep_image demo_libs (Arr3 demo_image) = Inr t
         \<and> tdtype t = floatX_dtype demo_libs
         \<and> im_shape (tdata t) = (3, 224, 224)
         \<and> (\<forall>k<3. \<forall>i<224. \<forall>j<224.
               tdata t ! k ! i ! j
                 = floatX_cast demo_libs (floatX_dtype demo_libs)
                     (im1 ! (fst (im_shape im1) div 2 - 112 + i)
                          ! (fst (snd (im_shape im1)) div 2 - 112 + j) ! (2 - k)))"
    by (rule prep_image_crop_shape [OF demo_image_shape]) simp_all
  show ?thesis using demo_image_shape c by (rule conjI)
qed


lemma demo_load_image:
  "load_image demo_libs demo_kdr (StrC ''img1'') = Inr (Arr3 demo_image)"
  "load_image demo_libs demo_kdr (StrC ''img2'') = Inr (Arr3 demo_image)"
  by (simp_all add: load_image_def demo_libs_def demo_kdr_def os_path_join_def)

lemma demo_decodable:
  "decodable demo_libs demo_kdr (StrC ''img1'')"
  "decodable demo_libs demo_kdr (StrC ''img2'')"
  by (simp_all add: decodable_def demo_load_image demo_image_shape)

section \<open>Construction and batch loading\<close>

text \<open>
  C5, as the code has it. When the label file cannot be read or parsed by the reader, or the
  table read from it lacks the column \<^verbatim>\<open>image\<close> or the column \<^verbatim>\<open>level\<close>, construction
  fails: it raises the reader's exception unchanged, or KeyError for a missing column, and
  no dataset object is produced. The cells of the two columns are not inspected.
\<close>

theorem init_fails_on_unusable_table:
  assumes "table_unusable L ft"
  shows "KaggleDR_init L pd ft
           = Inl (case read_csv L ft of Inl e \<Rightarrow> e | Inr df \<Rightarrow> KeyError)"
  using assms
  by (auto simp: KaggleDR_init_def table_unusable_def df_getitem_def
           split: sum.splits option.splits)

text \<open>The statement at a label file that does not exist.\<close>

theorem init_fails_on_unusable_table_witness:
  "table_unusable demo_libs (Some ''missing.csv'')
   \<and> KaggleDR_init demo_libs (Some ''data'') (Some ''missing.csv'') = Inl IOError"
proof -
  have h: "table_unusable demo_libs (Some ''missing.csv'')"
    by (simp add: table_unusable_def demo_libs_def)
  have r: "read_csv demo_libs (Some ''missing.csv'') = Inl IOError"
    by (simp add: demo_libs_def)
  show ?thesis
    using h init_fails_on_unusable_table [OF h, of "Some ''data''"] by (simp add: r)
qed

text \<open>
  C5 as stated fails: a label file whose row \<^verbatim>\<open>img1,abc\<close> has no integer label is
  accepted, and the dataset is constructed with the string as the label.
\<close>

theorem init_accepts_text_label:
  "KaggleDR_init text_label_libs (Some ''data'') (Some ''labels.csv'')
     = Inr \<lparr>path_data = Some ''data'', filename_targets = Some ''labels.csv'',
            image_filenames = [StrC ''img1''], y_arr = [StrC ''abc''], n_samples_attr = 1\<rparr>"
  by (simp add: KaggleDR_init_def text_label_libs_def demo_libs_def df_getitem_def cell_at_def)

lemma prep_image_out_shape:
  assumes "im_shape im = (h, w, c)" "0 < h" "0 < w" "0 < c"
  shows "out_shape (prep_image L (Arr3 im)) = Some (c, 224, 224)"
  using prep_image_shape [OF assms, of L] by (auto simp: out_shape_def)

text \<open>
  C9 as stated fails: nothing selects a crop size of 100 or the extension \<^verbatim>\<open>.png\<close>. The
  output of preprocessing is never 100 by 100, and with only \<^verbatim>\<open>data/img1.png\<close> on disk
  the image of sample \<^verbatim>\<open>img1\<close> is not found.
\<close>

theorem constants_not_configurable:
  "out_shape (prep_image demo_libs (Arr3 demo_image)) \<noteq> Some (3, 100, 100)
   \<and> load_image png_libs demo_kdr (StrC ''img1'') = Inl IOError"
proof
  have "out_shape (prep_image demo_libs (Arr3 demo_image)) = Some (3, 224, 224)"
    by (rule prep_image_out_shape [OF demo_image_shape]) simp_all
  then show "out_shape (prep_image demo_libs (Arr3 demo_image)) \<noteq> Some (3, 100, 100)"
    by simp
next
  show "load_image png_libs demo_kdr (StrC ''img1'') = Inl IOError"
    by (simp add: load_image_def png_libs_def demo_libs_def demo_kdr_def os_path_join_def)
qed

text \<open>
  C9, as the code has it. The crop size 224, the short side 256 and the extension
  \<^verbatim>\<open>.jpeg\<close> are constants of the code, and the float type is the one global setting
  \<^verbatim>\<open>floatX\<close>: for every image with positive height, width and channel count the output is
  \<open>c\<close> by 224 by 224 with that dtype, the resized image has its smaller side equal to 256,
  and for every data directory \<open>d\<close> and sample name \<open>s\<close> the file opened is
  \<open>d/s.jpeg\<close>.
\<close>

theorem pipeline_constants_fixed:
  assumes sh: "im_shape im = (h, w, c)" and h: "0 < h" and w: "0 < w" and c: "0 < c"
  shows "out_shape (prep_image L (Arr3 im)) = Some (c, 224, 224)
     \<and> map_sum id tdtype (prep_image L (Arr3 im)) = Inr (floatX_dtype L)
     \<and> map_sum id (\<lambda>im1. min (fst (im_shape im1)) (fst (snd (im_shape im1)))) (prep_resize L im)
         = Inr 256
     \<and> load_image L (self\<lparr>path_data := Some d\<rparr>) (StrC s)
         = image_open L (os_path_join d (s @ ''.jpeg''))"
proof (intro conjI)
  show "out_shape (prep_image L (Arr3 im)) = Some (c, 224, 224)"
    by (rule prep_image_out_shape [OF sh h w c])
next
  show "map_sum id tdtype (prep_image L (Arr3 im)) = Inr (floatX_dtype L)"
    using prep_image_shape [OF sh h w c, of L] by auto
next
  have c': "snd (snd (im_shape im)) = c" using sh by simp
  show "map_sum id (\<lambda>im1. min (fst (im_shape im1)) (fst (snd (im_shape im1)))) (prep_resize L im)
         = Inr 256"
  proof (cases "h < w")
    case True
    then have "256 \<le> w * 256 div h" by (rule resize_target_wide [OF h])
    then show ?thesis
      using True by (simp add: prep_resize_ok [OF sh h w] im_shape_sk_resize)
  next
    case False
    then have "256 \<le> h * 256 div w" by (rule resize_target_tall [OF w])
    then show ?thesis
      using False by (simp add: prep_resize_ok [OF sh h w] im_shape_sk_resize)
  qed
next
  show "load_image L (self\<lparr>path_data := Some d\<rparr>) (StrC s)
         = image_open L (os_path_join d (s @ ''.jpeg''))"
    by (simp add: load_image_def)
qed

text \<open>The statement at the sample image and the sample dataset.\<close>

theorem pipeline_constants_fixed_witness:
  "im_shape demo_image = (1, 2, 3)
   \<and> out_shape (prep_image demo_libs (Arr3 demo_image)) = Some (3, 224, 224)
   \<and> map_sum id tdtype (prep_image demo_libs (Arr3 demo_image)) = Inr Float32
   \<and> load_image demo_libs (demo_kdr\<lparr>path_data := Some ''data''\<rparr>) (StrC ''img1'')
       = image_open demo_libs (os_path_join ''data'' (''img1'' @ ''.jpeg''))"
proof -
  have f: "floatX_dtype demo_libs = Float32" by (simp add: demo_libs_def)
  have "0 < (1::nat)" "0 < (2::nat)" "0 < (3::nat)" by simp_all
  from pipeline_constants_fixed [OF demo_image_shape this,
      where L = demo_libs and self = demo_kdr and d = "''data''" and s = "''img1''"]
  show ?thesis using demo_image_shape by (simp add: f)
qed

section \<open>The generator's loop under a binding of the name it reads\<close>

text \<open>
  The loop itself is the drop-remainder windowing of the docstring: in a namespace that
  binds \<^verbatim>\<open>batch_size\<close> to a positive integer \<open>b\<close>, and with a loader that does not
  fail, an unshuffled run leaves the indices as they are and yields the batches of the
  \<open>length indices div b\<close> consecutive windows of \<open>b\<close> indices. The module binds no such
  name, and the argument \<open>batchsize\<close> plays no part.
\<close>

lemma py_clamp_nat: "py_clamp n (int m) = min n m"
  by (simp add: py_clamp_def)

lemma py_range_windows:
  assumes "0 < b"
  shows "py_range 0 (int n - int b + 1) (int b) = map (\<lambda>k. int (k * b)) [0..<n div b]"
proof -
  have "(int n - int b + 1 - 0 + int b - 1) div int b = int (n div b)"
    by (simp add: zdiv_int)
  then have "nat ((int n - int b + 1 - 0 + int b - 1) div int b) = n div b"
    by simp
  then show ?thesis
    using assms unfolding py_range_def by simp
qed

lemma py_slice_window:
  assumes "k < length xs div b" and "0 < b"
  shows "py_slice xs (int k * int b) (int k * int b + int b) = take b (drop (k * b) xs)"
proof -
  have "Suc k \<le> length xs div b" using assms by simp
  then have "Suc k * b \<le> length xs div b * b" by (rule mult_le_mono1)
  also have "\<dots> \<le> length xs" by simp
  finally have le: "k * b + b \<le> length xs" by (simp add: add.commute)
  have e1: "int k * int b = int (k * b)" by simp
  have e2: "int (k * b) + int b = int (k * b + b)" by simp
  show ?thesis
    using le unfolding py_slice_def e1 e2 py_clamp_nat Let_def by (simp add: min_def)
qed

lemma run_batches_total:
  "run_batches (\<lambda>w. Inr (g w)) ws = (map g ws, None)"
  by (induction ws) simp_all

lemma iterate_minibatches_bound_name:
  assumes glob: "map_of globs ''batch_size'' = Some (PyInt (int b))" and b: "0 < b"
    and ld: "ld = (\<lambda>w. Inr (g w))"
  shows "iterate_minibatches globs draw ld indices batchsize False
           = \<lparr>indices_after = indices,
              yielded = map (\<lambda>k. g (take b (drop (k * b) indices))) [0..<length indices div b],
              raised = None\<rparr>"
proof -
  have win: "map (\<lambda>start_idx. py_slice indices start_idx (start_idx + int b))
               (py_range 0 (int (length indices) - int b + 1) (int b))
             = map (\<lambda>k. take b (drop (k * b) indices)) [0..<length indices div b]"
    unfolding py_range_windows [OF b] map_map comp_def
    by (rule map_cong [OF refl]) (simp add: py_slice_window b)
  have rb: "run_batches (\<lambda>w. Inr (g w))
              (map (\<lambda>start_idx. py_slice indices start_idx (start_idx + int b))
                 (py_range 0 (int (length indices) - int b + 1) (int b)))
            = (map g (map (\<lambda>k. take b (drop (k * b) indices)) [0..<length indices div b]), None)"
    unfolding win by (rule run_batches_total)
  show ?thesis
    using b unfolding iterate_minibatches_def glob ld
    by (simp add: rb comp_def)
qed

section \<open>The generator at concrete inputs\<close>

text \<open>
  C2. On the two-sample dataset, \<^verbatim>\<open>iterate_minibatches([0, 1], 2)\<close> should yield
  \<open>2 div 2 = 1\<close> batch. The code yields none: reading \<^verbatim>\<open>batch_size\<close> raises NameError,
  because the parameter is spelled \<^verbatim>\<open>batchsize\<close>.
\<close>

theorem iterate_two_indices_batch_two:
  "yielded (iterate_minibatches module_globals (\<lambda>_. 0) (load_batch demo_libs demo_kdr)
              [0, 1] 2 False) = []
   \<and> raised (iterate_minibatches module_globals (\<lambda>_. 0) (load_batch demo_libs demo_kdr)
              [0, 1] 2 False) = Some (NameError ''batch_size'')"
  by (simp add: iterate_minibatches_module)

lemma series_getitem_cases:
  "series_getitem pol xs idxs =
     (if pol = RaiseIfAnyMissing \<and> \<not> (\<forall>i \<in> set idxs. label_present xs i)
         \<or> pol = RaiseIfNoneFound \<and> idxs \<noteq> [] \<and> (\<forall>i \<in> set idxs. \<not> label_present xs i)
      then Inl KeyError else Inr (series_reindex xs idxs))"
  by (cases pol) (simp_all add: series_getitem_def)

lemma series_getitem_valid:
  assumes "\<forall>i \<in> set idxs. 0 \<le> i \<and> i < int (length xs)"
  shows "series_getitem pol xs idxs = Inr (map (\<lambda>i. xs ! nat i) idxs)"
proof -
  have p: "\<forall>i \<in> set idxs. label_present xs i"
    using assms by (simp add: label_present_def)
  have r: "series_reindex xs idxs = map (\<lambda>i. xs ! nat i) idxs"
    unfolding series_reindex_def by (rule map_cong [OF refl]) (use p in simp)
  have n: "\<not> (idxs \<noteq> [] \<and> (\<forall>i \<in> set idxs. \<not> label_present xs i))"
    using p by (cases idxs) auto
  show ?thesis
    unfolding series_getitem_cases r using p n by simp
qed

lemma try_map_Inr:
  assumes "\<And>x. x \<in> set xs \<Longrightarrow> f x = Inr (g x)"
  shows "try_map f xs = Inr (map g xs)"
  using assms by (induction xs) simp_all

lemma np_array_same:
  assumes "\<forall>t \<in> set ts. im_shape (tdata t) = s"
  shows "np_array ts = Inr ts"
proof (cases ts)
  case Nil
  then show ?thesis by (simp add: np_array_def)
next
  case (Cons a as)
  then show ?thesis using assms by (simp add: np_array_def)
qed

lemma decodable_sample:
  assumes "decodable L self fn"
  shows "\<exists>t. (case load_image L self fn of Inl e \<Rightarrow> Inl e | Inr im \<Rightarrow> prep_image L im) = Inr t
             \<and> im_shape (tdata t) = (3, 224, 224)"
proof -
  from assms obtain im h w where li: "load_image L self fn = Inr (Arr3 im)"
    and sh: "im_shape im = (h, w, 3)" and h: "0 < h" and w: "0 < w"
    by (auto simp: decodable_def split: sum.splits ndarray.splits prod.splits)
  from prep_image_shape [OF sh h w, of L] obtain t
    where "prep_image L (Arr3 im) = Inr t" "im_shape (tdata t) = (3, 224, 224)"
    by auto
  then show ?thesis using li by simp
qed

text \<open>
  C1. For a constructed dataset, every sequence of valid indices whose image files decode
  to rasters of three channels is loaded: \<^verbatim>\<open>load_batch\<close> returns a batch and a label
  vector, both as long as the index sequence, and at every position \<open>i\<close> the label is the
  dataset's label of sample \<open>indices[i]\<close> and the tensor is the preprocessed image of that
  sample.
\<close>

theorem load_batch_aligned:
  assumes init: "KaggleDR_init L pd ft = Inr self"
    and valid: "\<forall>i \<in> set indices. 0 \<le> i \<and> i < int (n_samples self)"
    and dec: "\<forall>i \<in> set indices. decodable L self (image_filenames self ! nat i)"
  shows "\<exists>X yv. load_batch L self indices = Inr (X, yv)
           \<and> length X = length indices \<and> length yv = length indices
           \<and> (\<forall>i < length indices.
                 yv ! i = y_arr self ! nat (indices ! i)
                 \<and> Inr (X ! i)
                     = (case load_image L self (image_filenames self ! nat (indices ! i)) of
                          Inl e \<Rightarrow> Inl e | Inr im \<Rightarrow> prep_image L im))"
proof -
  let ?f = "\<lambda>fn. case load_image L self fn of Inl e \<Rightarrow> Inl e | Inr im \<Rightarrow> prep_image L im"
  let ?fns = "map (\<lambda>i. image_filenames self ! nat i) indices"
  let ?g = "\<lambda>fn. projr (?f fn)"
  let ?ys = "map (\<lambda>i. y_arr self ! nat i) indices"
  have len: "length (image_filenames self) = n_samples self" "length (y_arr self) = n_samples self"
    using init_lengths [OF init] by simp_all
  have sg: "series_getitem (series_missing L) (image_filenames self) indices = Inr ?fns"
    by (rule series_getitem_valid) (use valid len in simp)
  have ok: "\<exists>t. ?f (image_filenames self ! nat i) = Inr t \<and> im_shape (tdata t) = (3, 224, 224)"
    if "i \<in> set indices" for i
    using dec that by (intro decodable_sample) blast
  have okg: "?f (image_filenames self ! nat i) = Inr (?g (image_filenames self ! nat i))
      \<and> im_shape (tdata (?g (image_filenames self ! nat i))) = (3, 224, 224)"
    if "i \<in> set indices" for i
  proof -
    from ok [OF that] obtain t where t: "?f (image_filenames self ! nat i) = Inr t"
      "im_shape (tdata t) = (3, 224, 224)" by blast
    then show ?thesis by simp
  qed
  have tm: "try_map ?f ?fns = Inr (map ?g ?fns)"
  proof (rule try_map_Inr)
    fix x assume "x \<in> set ?fns"
    then obtain i where "i \<in> set indices" "x = image_filenames self ! nat i" by auto
    then show "?f x = Inr (?g x)" using okg by blast
  qed
  have shp: "\<forall>t \<in> set (map ?g ?fns). im_shape (tdata t) = (3, 224, 224)"
  proof
    fix t assume "t \<in> set (map ?g ?fns)"
    then obtain i where "i \<in> set indices" "t = ?g (image_filenames self ! nat i)" by auto
    then show "im_shape (tdata t) = (3, 224, 224)" using okg by blast
  qed
  have np: "np_array (map ?g ?fns) = Inr (map ?g ?fns)"
    by (rule np_array_same [OF shp])
  have guard: "\<forall>i \<in> set indices. - int (length (y_arr self)) \<le> i \<and> i < int (length (y_arr self))"
    using valid len by auto
  have "map (\<lambda>i. y_arr self ! nat (if i < 0 then i + int (length (y_arr self)) else i)) indices
          = ?ys"
    by (rule map_cong [OF refl]) (use valid in auto)
  then have ng: "ndarray_getitem (y_arr self) indices = Inr ?ys"
    using guard by (simp add: ndarray_getitem_def)
  have lb: "load_batch L self indices = Inr (map ?g ?fns, ?ys)"
    unfolding load_batch_def sg tm np ng sum.case by simp
  have al: "?ys ! i = y_arr self ! nat (indices ! i)
      \<and> Inr (map ?g ?fns ! i) = ?f (image_filenames self ! nat (indices ! i))"
    if "i < length indices" for i
  proof -
    have "indices ! i \<in> set indices" using that by simp
    from okg [OF this] show ?thesis using that by simp
  qed
  show ?thesis
    using lb al by (intro exI [of _ "map ?g ?fns"] exI [of _ ?ys]) simp
qed

text \<open>The statement at the two-sample dataset and the indices 1, 0.\<close>

theorem load_batch_aligned_witness:
  "KaggleDR_init demo_libs (Some ''data'') (Some ''labels.csv'') = Inr demo_kdr
   \<and> 0 \<le> (1::int) \<and> 1 < int (n_samples demo_kdr)
   \<and> 0 \<le> (0::int) \<and> 0 < int (n_samples demo_kdr)
   \<and> decodable demo_libs demo_kdr (image_filenames demo_kdr ! nat 1)
   \<and> decodable demo_libs demo_kdr (image_filenames demo_kdr ! nat 0)
   \<and> (\<exists>X yv. load_batch demo_libs demo_kdr [1, 0] = Inr (X, yv)
         \<and> length X = 2 \<and> yv = [IntC 2, IntC 0])"
proof -
  have v: "\<forall>i \<in> set [1, 0]. 0 \<le> i \<and> i < int (n_samples demo_kdr)"
    by (simp add: n_samples_def demo_kdr_def)
  have fn: "image_filenames demo_kdr = [StrC ''img1'', StrC ''img2'']"
    "y_arr demo_kdr = [IntC 0, IntC 2]"
    by (simp_all add: demo_kdr_def)
  have d: "\<forall>i \<in> set [1, 0]. decodable demo_libs demo_kdr (image_filenames demo_kdr ! nat i)"
    by (simp add: fn demo_decodable)
  from load_batch_aligned [OF demo_init v d] obtain X yv
    where r: "load_batch demo_libs demo_kdr [1, 0] = Inr (X, yv)"
      "length X = length [1, 0::int]" "length yv = length [1, 0::int]"
      "\<forall>i < length [1, 0::int]. yv ! i = y_arr demo_kdr ! nat ([1, 0] ! i)
         \<and> Inr (X ! i)
             = (case load_image demo_libs demo_kdr (image_filenames demo_kdr ! nat ([1, 0] ! i)) of
                  Inl e \<Rightarrow> Inl e | Inr im \<Rightarrow> prep_image demo_libs im)"
    by blast
  from r(4) have "yv ! 0 = IntC 2" "yv ! 1 = IntC 0"
    by (simp_all add: fn)
  with r(3) have "yv = [IntC 2, IntC 0]"
    by (cases yv; cases "tl yv") auto
  with r(1,2) demo_init v d show ?thesis by simp
qed

section \<open>Indices outside the table\<close>






section \<open>The generator under any namespace\<close>

lemma length_shuffle_loop: "length (shuffle_loop d i xs) = length xs"
  by (induction i arbitrary: xs) (simp_all add: Let_def)

lemma length_np_random_shuffle: "length (np_random_shuffle d xs) = length xs"
  by (simp add: np_random_shuffle_def length_shuffle_loop)

lemma indices_after_iterate:
  "indices_after (iterate_minibatches globs draw ld indices batchsize shuffle)
     = (if shuffle then np_random_shuffle draw indices else indices)"
  by (simp add: iterate_minibatches_def Let_def split: option.splits pyobj.splits prod.splits)

lemma windows_run:
  assumes b: "0 < b"
  shows "run_batches (\<lambda>w. Inr (g w))
           (map (\<lambda>start_idx. py_slice ix start_idx (start_idx + int b))
              (py_range 0 (int (length ix) - int b + 1) (int b)))
         = (map g (map (\<lambda>k. take b (drop (k * b) ix)) [0..<length ix div b]), None)"
proof -
  have win: "map (\<lambda>start_idx. py_slice ix start_idx (start_idx + int b))
               (py_range 0 (int (length ix) - int b + 1) (int b))
             = map (\<lambda>k. take b (drop (k * b) ix)) [0..<length ix div b]"
    unfolding py_range_windows [OF b] map_map comp_def
    by (rule map_cong [OF refl]) (simp add: py_slice_window b)
  show ?thesis unfolding win by (rule run_batches_total)
qed

lemma iterate_minibatches_bound:
  assumes glob: "map_of globs ''batch_size'' = Some (PyInt (int b))" and b: "0 < b"
    and ld: "ld = (\<lambda>w. Inr (g w))"
  shows "yielded (iterate_minibatches globs draw ld indices batchsize shuffle)
           = map (\<lambda>k. g (take b (drop (k * b)
                    (indices_after (iterate_minibatches globs draw ld indices batchsize shuffle)))))
               [0..<length indices div b]
       \<and> raised (iterate_minibatches globs draw ld indices batchsize shuffle) = None"
proof (cases shuffle)
  case True
  show ?thesis
    using b unfolding indices_after_iterate iterate_minibatches_def glob ld
    by (simp add: True windows_run comp_def length_np_random_shuffle Let_def)
next
  case False
  show ?thesis
    using b unfolding indices_after_iterate iterate_minibatches_def glob ld
    by (simp add: False windows_run comp_def Let_def)
qed

lemma map_of_bound_globals: "map_of (bound_globals b) ''batch_size'' = Some (PyInt b)"
  by (simp add: bound_globals_def)





section \<open>The shuffle\<close>

lemma shuffle_loop_above: "i < p \<Longrightarrow> shuffle_loop d i xs ! p = xs ! p"
proof (induction i arbitrary: xs)
  case 0
  show ?case by simp
next
  case (Suc i)
  let ?j = "d (Suc i) mod (Suc i + 1)"
  have "?j < Suc i + 1" by (rule mod_less_divisor) simp
  then have j: "?j \<noteq> p" "Suc i \<noteq> p" using Suc.prems by arith+
  have "i < p" using Suc.prems by simp
  from Suc.IH [OF this, of "xs[Suc i := xs ! ?j, ?j := xs ! Suc i]"] j
  show ?case by (simp add: Let_def)
qed

lemma swap_nth_first:
  assumes "a < length xs" "j < length xs"
  shows "xs[a := xs ! j, j := xs ! a] ! a = xs ! j"
  using assms by (cases "j = a") simp_all

lemma shuffle_loop_top:
  assumes "Suc i < length xs"
  shows "shuffle_loop d (Suc i) xs ! Suc i = xs ! (d (Suc i) mod (Suc i + 1))"
proof -
  let ?j = "d (Suc i) mod (Suc i + 1)"
  have "?j < Suc i + 1" by (rule mod_less_divisor) simp
  then have j: "?j < length xs" using assms by arith
  have "shuffle_loop d (Suc i) xs ! Suc i = xs[Suc i := xs ! ?j, ?j := xs ! Suc i] ! Suc i"
    by (simp add: Let_def shuffle_loop_above)
  also have "\<dots> = xs ! ?j" by (rule swap_nth_first [OF assms j])
  finally show ?thesis .
qed

lemma shuffle_loop_cong:
  assumes "\<forall>k. 1 \<le> k \<and> k \<le> i \<longrightarrow> d k = d' k"
  shows "shuffle_loop d i xs = shuffle_loop d' i xs"
  using assms
proof (induction i arbitrary: xs)
  case 0
  show ?case by simp
next
  case (Suc i)
  have e: "d (Suc i) = d' (Suc i)" using Suc.prems by simp
  let ?ys = "xs[Suc i := xs ! (d' (Suc i) mod (Suc i + 1)),
                d' (Suc i) mod (Suc i + 1) := xs ! Suc i]"
  have "\<forall>k. 1 \<le> k \<and> k \<le> i \<longrightarrow> d k = d' k" using Suc.prems by simp
  then have "shuffle_loop d i ?ys = shuffle_loop d' i ?ys"
    by (rule Suc.IH)
  then show ?case by (simp add: Let_def e)
qed

lemma shuffle_loop_inj:
  assumes "distinct xs" "i < length xs" "shuffle_loop d i xs = shuffle_loop d' i xs"
  shows "\<forall>k. 1 \<le> k \<and> k \<le> i \<longrightarrow> d k mod (k + 1) = d' k mod (k + 1)"
  using assms
proof (induction i arbitrary: xs)
  case 0
  show ?case by simp
next
  case (Suc i)
  let ?j = "d (Suc i) mod (Suc i + 1)"
  let ?j' = "d' (Suc i) mod (Suc i + 1)"
  have "?j < Suc i + 1" "?j' < Suc i + 1" by (rule mod_less_divisor, simp)+
  then have j: "?j < length xs" "?j' < length xs" using Suc.prems(2) by arith+
  have "xs ! ?j = shuffle_loop d (Suc i) xs ! Suc i"
    by (rule shuffle_loop_top [OF Suc.prems(2), symmetric])
  also have "\<dots> = shuffle_loop d' (Suc i) xs ! Suc i" by (simp only: Suc.prems(3))
  also have "\<dots> = xs ! ?j'" by (rule shuffle_loop_top [OF Suc.prems(2)])
  finally have jj: "?j = ?j'"
    using Suc.prems(1) j by (simp add: nth_eq_iff_index_eq)
  let ?ys = "xs[Suc i := xs ! ?j, ?j := xs ! Suc i]"
  have dy: "distinct ?ys" using Suc.prems(1,2) j by (simp add: distinct_swap)
  have ly: "i < length ?ys" using Suc.prems(2) by simp
  have "shuffle_loop d i ?ys = shuffle_loop d' i ?ys"
    using Suc.prems(3) jj by (simp add: Let_def)
  from Suc.IH [OF dy ly this]
  have ih: "\<forall>k. 1 \<le> k \<and> k \<le> i \<longrightarrow> d k mod (k + 1) = d' k mod (k + 1)" .
  show ?case
  proof (intro allI impI)
    fix k assume k: "1 \<le> k \<and> k \<le> Suc i"
    show "d k mod (k + 1) = d' k mod (k + 1)"
    proof (cases "k = Suc i")
      case True
      then show ?thesis using jj by simp
    next
      case False
      then have "1 \<le> k \<and> k \<le> i" using k by arith
      then show ?thesis using ih by blast
    qed
  qed
qed

lemma agree_above_0:
  assumes m: "mset ys = mset xs" and ag: "\<forall>p. 0 < p \<longrightarrow> p < length xs \<longrightarrow> ys ! p = xs ! p"
  shows "ys = xs"
proof (cases xs)
  case Nil
  then show ?thesis using m by simp
next
  case (Cons x xs')
  have len: "length ys = length xs" using m by (rule mset_eq_length)
  then obtain y ys' where ys: "ys = y # ys'" using Cons by (cases ys) simp_all
  have tl: "ys' = xs'"
  proof (rule nth_equalityI)
    show "length ys' = length xs'" using len ys Cons by simp
  next
    fix p assume "p < length ys'"
    then have "Suc p < length xs" using len ys by simp
    with ag have "ys ! Suc p = xs ! Suc p" by simp
    then show "ys' ! p = xs' ! p" using ys Cons by simp
  qed
  from m have "y = x" unfolding ys Cons tl by simp
  then show ?thesis using ys Cons tl by simp
qed

lemma shuffle_loop_reach:
  assumes "i < length xs" "mset ys = mset xs"
    "\<forall>p. i < p \<longrightarrow> p < length xs \<longrightarrow> ys ! p = xs ! p"
  shows "\<exists>d. shuffle_loop d i xs = ys"
  using assms
proof (induction i arbitrary: xs)
  case 0
  then have "ys = xs" by (intro agree_above_0) simp_all
  then show ?case by simp
next
  case (Suc i)
  let ?k = "Suc (Suc i)"
  have len: "length ys = length xs" using Suc.prems(2) by (rule mset_eq_length)
  have k: "?k \<le> length xs" using Suc.prems(1) by simp
  have dr: "drop ?k ys = drop ?k xs"
  proof (rule nth_equalityI)
    show "length (drop ?k ys) = length (drop ?k xs)" using len by simp
  next
    fix p assume "p < length (drop ?k ys)"
    then have p: "?k + p < length xs" using len by simp
    then have "ys ! (?k + p) = xs ! (?k + p)" using Suc.prems(3) by simp
    then show "drop ?k ys ! p = drop ?k xs ! p" using p len by simp
  qed
  have "mset (take ?k ys) + mset (drop ?k ys) = mset (take ?k xs) + mset (drop ?k xs)"
    using Suc.prems(2) by (simp only: union_code [symmetric] mset_append [symmetric]
        append_take_drop_id)
  then have mt: "mset (take ?k ys) = mset (take ?k xs)" by (simp add: dr)
  have "ys ! Suc i \<in> set (take ?k ys)"
    using k len by (metis lessI nth_mem nth_take length_take min.absorb2)
  then have "ys ! Suc i \<in> set (take ?k xs)" using mt by (metis mset_eq_setD)
  then obtain j where j: "j < ?k" "xs ! j = ys ! Suc i"
    using k by (auto simp: in_set_conv_nth)
  have jl: "j < length xs" using j(1) k by arith
  let ?zs = "xs[Suc i := xs ! j, j := xs ! Suc i]"
  have mz: "mset ys = mset ?zs" using Suc.prems(1,2) jl by (simp add: mset_swap)
  have lz: "i < length ?zs" using Suc.prems(1) by simp
  have az: "\<forall>p. i < p \<longrightarrow> p < length ?zs \<longrightarrow> ys ! p = ?zs ! p"
  proof (intro allI impI)
    fix p assume p: "i < p" "p < length ?zs"
    show "ys ! p = ?zs ! p"
    proof (cases "p = Suc i")
      case True
      then show ?thesis using swap_nth_first [OF Suc.prems(1) jl] j(2) by simp
    next
      case False
      then have "Suc i < p" using p(1) by arith
      then have "p \<noteq> j" "p \<noteq> Suc i" using j(1) by arith+
      moreover have "ys ! p = xs ! p" using Suc.prems(3) \<open>Suc i < p\<close> p(2) by simp
      ultimately show ?thesis by simp
    qed
  qed
  from Suc.IH [OF lz mz az] obtain d' where d': "shuffle_loop d' i ?zs = ys" by blast
  let ?d = "d'(Suc i := j)"
  have "?d (Suc i) mod (Suc i + 1) = j" using j(1) by simp
  then have "shuffle_loop ?d (Suc i) xs = shuffle_loop ?d i ?zs" by (simp add: Let_def)
  also have "\<dots> = shuffle_loop d' i ?zs" by (rule shuffle_loop_cong) simp
  finally show ?case using d' by blast
qed

lemma np_random_shuffle_reach:
  assumes "mset ys = mset xs"
  shows "\<exists>d. np_random_shuffle d xs = ys"
proof (cases xs)
  case Nil
  then show ?thesis using assms by (simp add: np_random_shuffle_def)
next
  case (Cons a as)
  then have "length xs - 1 < length xs" by simp
  moreover have "\<forall>p. length xs - 1 < p \<longrightarrow> p < length xs \<longrightarrow> ys ! p = xs ! p" by arith
  ultimately show ?thesis
    unfolding np_random_shuffle_def using assms by (intro shuffle_loop_reach)
qed

lemma np_random_shuffle_inj:
  assumes "distinct xs" "np_random_shuffle d xs = np_random_shuffle d' xs"
  shows "\<forall>k. 1 \<le> k \<and> k < length xs \<longrightarrow> d k mod (k + 1) = d' k mod (k + 1)"
proof (cases xs)
  case Nil
  then show ?thesis by simp
next
  case (Cons a as)
  then have l: "length xs - 1 < length xs" by simp
  from shuffle_loop_inj [OF assms(1) l assms(2) [unfolded np_random_shuffle_def]]
  show ?thesis using l by (auto simp: less_eq_Suc_le)
qed

lemma np_random_shuffle_last:
  assumes "2 \<le> length xs"
  shows "np_random_shuffle d xs ! (length xs - 1) = xs ! (d (length xs - 1) mod length xs)"
proof -
  obtain i where i: "length xs - 1 = Suc i" using assms by (cases "length xs - 1") simp_all
  then have s: "Suc i < length xs" "Suc i + 1 = length xs" by arith+
  show ?thesis
    unfolding np_random_shuffle_def i using shuffle_loop_top [OF s(1), of d] s(2) by simp
qed

text \<open>
  C7. With \<open>shuffle = True\<close> a run of the generator (the body runs from the first
  \<^verbatim>\<open>next\<close>) shuffles the caller's index sequence in place, before the loop header is
  evaluated. Whatever the namespace, the loader and the batch size: the caller's sequence
  afterwards is a permutation of the original one; its last slot holds the element at the
  drawn position, so the sequence is changed and not copied; every permutation of the
  original sequence is the outcome of some draws, and on distinct indices two outcomes are
  equal only if the draws \<open>draw k mod (k + 1)\<close> agree for every \<open>k\<close>, so each permutation
  comes from exactly one of the \<open>n!\<close> vectors of draws (uniform draws give a uniform
  shuffle). Where the name \<^verbatim>\<open>batch_size\<close> is bound, the windows are taken from the
  shuffled sequence.
\<close>

theorem shuffle_permutes_in_place:
  "mset (indices_after (iterate_minibatches globs draw ld indices batchsize True)) = mset indices
   \<and> (2 \<le> length indices \<longrightarrow>
        indices_after (iterate_minibatches globs draw ld indices batchsize True)
            ! (length indices - 1)
          = indices ! (draw (length indices - 1) mod length indices))
   \<and> (\<forall>ys. mset ys = mset indices \<longrightarrow>
        (\<exists>d. indices_after (iterate_minibatches globs d ld indices batchsize True) = ys))
   \<and> (distinct indices \<longrightarrow>
        (\<forall>d. indices_after (iterate_minibatches globs d ld indices batchsize True)
               = indices_after (iterate_minibatches globs draw ld indices batchsize True)
             \<longrightarrow> (\<forall>k. 1 \<le> k \<and> k < length indices \<longrightarrow> d k mod (k + 1) = draw k mod (k + 1))))
   \<and> (\<forall>b g. map_of globs ''batch_size'' = Some (PyInt (int b)) \<and> 0 < b
               \<and> ld = (\<lambda>w. Inr (g w)) \<longrightarrow>
        yielded (iterate_minibatches globs draw ld indices batchsize True)
          = map (\<lambda>k. g (take b (drop (k * b)
                   (indices_after (iterate_minibatches globs draw ld indices batchsize True)))))
              [0..<length indices div b])"
proof -
  have ia: "indices_after (iterate_minibatches globs d ld indices batchsize True)
              = np_random_shuffle d indices" for d
    by (simp add: indices_after_iterate)
  have c1: "mset (indices_after (iterate_minibatches globs draw ld indices batchsize True))
              = mset indices"
    by (simp add: ia mset_np_random_shuffle)
  have c2: "2 \<le> length indices \<longrightarrow>
        indices_after (iterate_minibatches globs draw ld indices batchsize True)
            ! (length indices - 1)
          = indices ! (draw (length indices - 1) mod length indices)"
    unfolding ia by (rule impI) (rule np_random_shuffle_last)
  have c3: "\<forall>ys. mset ys = mset indices \<longrightarrow>
        (\<exists>d. indices_after (iterate_minibatches globs d ld indices batchsize True) = ys)"
    by (simp add: ia np_random_shuffle_reach)
  have c4: "distinct indices \<longrightarrow>
        (\<forall>d. indices_after (iterate_minibatches globs d ld indices batchsize True)
               = indices_after (iterate_minibatches globs draw ld indices batchsize True)
             \<longrightarrow> (\<forall>k. 1 \<le> k \<and> k < length indices \<longrightarrow> d k mod (k + 1) = draw k mod (k + 1)))"
    unfolding ia using np_random_shuffle_inj [of indices] by blast
  have c5: "\<forall>b g. map_of globs ''batch_size'' = Some (PyInt (int b)) \<and> 0 < b
               \<and> ld = (\<lambda>w. Inr (g w)) \<longrightarrow>
        yielded (iterate_minibatches globs draw ld indices batchsize True)
          = map (\<lambda>k. g (take b (drop (k * b)
                   (indices_after (iterate_minibatches globs draw ld indices batchsize True)))))
              [0..<length indices div b]"
  proof (intro allI impI)
    fix b g
    assume h: "map_of globs ''batch_size'' = Some (PyInt (int b)) \<and> 0 < b
               \<and> ld = (\<lambda>w. Inr (g w))"
    then have h1: "map_of globs ''batch_size'' = Some (PyInt (int b))" and h2: "0 < b"
      and h3: "ld = (\<lambda>w. Inr (g w))" by simp_all
    show "yielded (iterate_minibatches globs draw ld indices batchsize True)
          = map (\<lambda>k. g (take b (drop (k * b)
                   (indices_after (iterate_minibatches globs draw ld indices batchsize True)))))
              [0..<length indices div b]"
      by (rule iterate_minibatches_bound [OF h1 h2 h3, THEN conjunct1])
  qed
  show ?thesis by (intro conjI c1 c2 c3 c4 c5)
qed

lemma shuffle_draw_zero: "np_random_shuffle (\<lambda>_. 0) [10, 20, 30::int] = [20, 30, 10]"
  by code_simp

lemma three_div_two: "length [10, 20, 30::int] div 2 = Suc 0"
  by code_simp

text \<open>
  The statement at the indices \<open>[10, 20, 30]\<close> with the name bound to 2: the permutation
  \<open>[30, 10, 20]\<close> is reached, and with all draws 0 the caller's sequence becomes
  \<open>[20, 30, 10]\<close> and the one batch is its window \<open>[20, 30]\<close>.
\<close>

theorem shuffle_permutes_in_place_witness:
  "mset [30, 10, 20] = mset [10, 20, 30::int]
   \<and> (\<exists>d. indices_after (iterate_minibatches (bound_globals 2) d
               (Inr :: int list \<Rightarrow> pyerr + int list) [10, 20, 30] 2 True) = [30, 10, 20])
   \<and> map_of (bound_globals 2) ''batch_size'' = Some (PyInt (int 2))
   \<and> indices_after (iterate_minibatches (bound_globals 2) (\<lambda>_. 0)
         (Inr :: int list \<Rightarrow> pyerr + int list) [10, 20, 30] 2 True) = [20, 30, 10]
   \<and> yielded (iterate_minibatches (bound_globals 2) (\<lambda>_. 0)
         (Inr :: int list \<Rightarrow> pyerr + int list) [10, 20, 30] 2 True) = [[20, 30]]"
proof -
  note T = shuffle_permutes_in_place [where globs = "bound_globals 2" and draw = "\<lambda>_. 0"
      and ld = "Inr :: int list \<Rightarrow> pyerr + int list" and indices = "[10, 20, 30]"
      and batchsize = 2]
  have m: "mset [30, 10, 20] = mset [10, 20, 30::int]" by simp
  from T [THEN conjunct2, THEN conjunct2, THEN conjunct1, rule_format, OF m]
  have r: "\<exists>d. indices_after (iterate_minibatches (bound_globals 2) d
               (Inr :: int list \<Rightarrow> pyerr + int list) [10, 20, 30] 2 True) = [30, 10, 20]" .
  have g: "map_of (bound_globals 2) ''batch_size'' = Some (PyInt (int 2))"
    by (simp add: map_of_bound_globals)
  have ia: "indices_after (iterate_minibatches (bound_globals 2) (\<lambda>_. 0)
         (Inr :: int list \<Rightarrow> pyerr + int list) [10, 20, 30] 2 True) = [20, 30, 10]"
    by (simp add: indices_after_iterate shuffle_draw_zero)
  have h: "map_of (bound_globals 2) ''batch_size'' = Some (PyInt (int 2)) \<and> 0 < (2::nat)
             \<and> (Inr :: int list \<Rightarrow> pyerr + int list) = (\<lambda>w. Inr ((\<lambda>w. w) w))"
    using g by simp
  from T [THEN conjunct2, THEN conjunct2, THEN conjunct2, THEN conjunct2, rule_format,
      of 2 "\<lambda>w. w", OF h]
  have y: "yielded (iterate_minibatches (bound_globals 2) (\<lambda>_. 0)
         (Inr :: int list \<Rightarrow> pyerr + int list) [10, 20, 30] 2 True) = [[20, 30]]"
    by (simp add: ia three_div_two)
  from m r g ia y show ?thesis by blast
qed

end
